theory Spec2Isabelle
  imports Complex_Main "HOL-Library.Multiset"
begin

section \<open>Configuration and grid layers\<close>

text \<open>
  The module constants of \<^verbatim>\<open>gen.py\<close> (lines 4 to 7) are Python integers; they are
  collected in a record so that every claim can quantify over them.
\<close>

record config =
  NUM_TREES :: int
  NUM_LAYERS :: int
  MIN_CHILD :: int
  MAX_CHILD :: int

text \<open>
  A point is a pair of coordinates. The coordinates that occur are Python integers and
  integers shifted by the float \<^verbatim>\<open>0.5\<close>; both are exact, so they are rationals here and
  Python's \<^verbatim>\<open>==\<close> on them is equality.
\<close>

type_synonym point = "rat \<times> rat"

text \<open>\<^verbatim>\<open>range(n)\<close> for a Python integer \<^verbatim>\<open>n\<close>: empty when \<^verbatim>\<open>n \<le> 0\<close>.\<close>

definition py_range :: "int \<Rightarrow> int list" where
  "py_range n = [0..n - 1]"

definition translate_layer :: "point list \<Rightarrow> point \<Rightarrow> point list" where
  "translate_layer layer translation =
     map (\<lambda>x. (fst x + fst translation, snd x + snd translation)) layer"

definition get_layer :: "int \<Rightarrow> point list" where
  "get_layer sz =
     (let layer0 = concat (map (\<lambda>k. map (\<lambda>m. (of_int k, of_int m)) (py_range (sz * 2 + 3)))
                               (py_range (sz * 2 + 3)));
          layer1 = translate_layer layer0 (of_int (- (sz + 1)), of_int (- (sz + 1)))
      in if sz mod 2 = 0 then translate_layer layer1 (1 / 2, 1 / 2) else layer1)"

text \<open>
  The inner loop of \<^verbatim>\<open>generate_layers\<close> (lines 58 to 61): starting from the current
  \<^verbatim>\<open>ct\<close>, enlarge the grid until it holds at least \<^verbatim>\<open>need\<close> points. It returns the
  new \<^verbatim>\<open>ct\<close> with the layer, since \<^verbatim>\<open>ct\<close> is kept for the next depth.
\<close>

function grow_layer :: "int \<Rightarrow> int \<Rightarrow> int \<times> point list" where
  "grow_layer need ct =
     (if int (length (get_layer ct)) < need then grow_layer need (ct + 1)
      else (ct, get_layer ct))"
  by pat_completeness auto

lemma length_py_range [simp]: "length (py_range n) = nat n"
  by (simp add: py_range_def)

lemma length_translate_layer [simp]: "length (translate_layer l v) = length l"
  by (simp add: translate_layer_def)

lemma length_concat_const:
  "(\<And>x. x \<in> set xs \<Longrightarrow> length (f x) = c) \<Longrightarrow> length (concat (map f xs)) = length xs * c"
  by (induction xs) auto

lemma length_get_layer: "length (get_layer sz) = nat (sz * 2 + 3) * nat (sz * 2 + 3)"
  by (simp add: get_layer_def Let_def length_concat_const)

lemma get_layer_small_ct:
  assumes "int (length (get_layer ct)) < need"
  shows "ct < need"
proof (cases "0 \<le> ct")
  case True
  then have "ct \<le> (ct * 2 + 3) * (ct * 2 + 3)"
    by (simp add: algebra_simps)
  moreover have "int (length (get_layer ct)) = (ct * 2 + 3) * (ct * 2 + 3)"
    using True by (simp add: length_get_layer)
  ultimately show ?thesis using assms by linarith
next
  case False
  then show ?thesis using assms by linarith
qed

termination grow_layer
  by (relation "measure (\<lambda>(need, ct). nat (need - ct))") (auto dest: get_layer_small_ct)

declare grow_layer.simps [simp del]

text \<open>
  The outer loop (lines 57 to 63). The counter \<^verbatim>\<open>i\<close> of the source is written but
  never read, so it is left out.
\<close>

function layers_loop :: "config \<Rightarrow> int \<Rightarrow> point list list \<Rightarrow> point list list" where
  "layers_loop cfg ct nodes =
     (if int (length nodes) < NUM_LAYERS cfg then
        (let (ct', layer) = grow_layer (NUM_TREES cfg * MAX_CHILD cfg ^ (length nodes + 1)) ct
         in layers_loop cfg ct' (nodes @ [layer]))
      else nodes)"
  by pat_completeness auto
termination
  by (relation "measure (\<lambda>(cfg, ct, nodes). nat (NUM_LAYERS cfg - int (length nodes)))") auto

declare layers_loop.simps [simp del]

definition generate_layers :: "config \<Rightarrow> point list \<times> point list list" where
  "generate_layers cfg =
     (let start_nodes = map (\<lambda>i. (of_int (i div 3), of_int (i mod 3))) (py_range (NUM_TREES cfg));
          nodes = layers_loop cfg 1 []
      in (start_nodes, nodes))"

section \<open>Randomness and errors\<close>

text \<open>
  The calls to \<^verbatim>\<open>random\<close> are resolved by an oracle \<open>rnd\<close>: the \<open>p\<close>-th draw of a run
  reads \<open>rnd p\<close>, and the position \<open>p\<close> is threaded through the state. Every outcome that
  \<^verbatim>\<open>random.randint\<close> and \<^verbatim>\<open>random.choice\<close> can produce is produced by some oracle, so
  a statement for all \<open>rnd\<close> is a statement about every run.
\<close>

datatype error = IndexError | ValueError

definition randint :: "(nat \<Rightarrow> nat) \<Rightarrow> int \<Rightarrow> int \<Rightarrow> nat \<Rightarrow> error + int \<times> nat" where
  "randint rnd a b p =
     (if b < a then Inl ValueError
      else Inr (a + int (rnd p mod nat (b - a + 1)), p + 1))"

definition choice :: "(nat \<Rightarrow> nat) \<Rightarrow> 'a list \<Rightarrow> nat \<Rightarrow> error + 'a \<times> nat" where
  "choice rnd xs p =
     (if xs = [] then Inl IndexError
      else Inr (xs ! (rnd p mod length xs), p + 1))"

section \<open>Trees\<close>

text \<open>A node is the tuple \<^verbatim>\<open>(ID, x, y, z, parent)\<close> of the source.\<close>

type_synonym node = "int \<times> rat \<times> int \<times> rat \<times> int"

definition row0 :: "node \<Rightarrow> int" where "row0 r = fst r"
definition row1 :: "node \<Rightarrow> rat" where "row1 r = fst (snd r)"
definition row2 :: "node \<Rightarrow> int" where "row2 r = fst (snd (snd r))"
definition row3 :: "node \<Rightarrow> rat" where "row3 r = fst (snd (snd (snd r)))"
definition row4 :: "node \<Rightarrow> int" where "row4 r = snd (snd (snd (snd r)))"

text \<open>
  The state that \<^verbatim>\<open>Tree.generate\<close> works on: the fields \<^verbatim>\<open>self.tree\<close> and \<^verbatim>\<open>self.ct\<close>
  of the tree under construction, the list of layers, which all trees share and drain, and
  the position of the random oracle. The field \<^verbatim>\<open>self.num_layers\<close> is assigned once in
  \<^verbatim>\<open>__init__\<close> and only read afterwards, so it is the parameter \<open>nl\<close>.
\<close>

record gstate =
  self_tree :: "node list"
  self_ct :: int
  layers :: "point list list"
  rpos :: nat

definition add_node :: "point \<Rightarrow> int \<Rightarrow> nat \<Rightarrow> gstate \<Rightarrow> int \<times> gstate" where
  "add_node node parent layer st =
     (let st1 = st\<lparr>self_tree := self_tree st @ [(self_ct st, fst node, - int layer, snd node, parent)]\<rparr>;
          st2 = st1\<lparr>self_ct := self_ct st1 + 1\<rparr>
      in (self_ct st2 - 1, st2))"

text \<open>
  \<^verbatim>\<open>Tree.generate\<close> (lines 145 to 154) and its \<^verbatim>\<open>for\<close> loop, whose argument counts the
  iterations that remain. The loop is entered only below the depth test of line 146; the
  loop function repeats that test together with the bounds check of \<^verbatim>\<open>layers[layer]\<close>.
  Drawing from an empty layer is the \<^verbatim>\<open>IndexError\<close> of \<^verbatim>\<open>random.choice\<close>.
\<close>

function generate :: "(nat \<Rightarrow> nat) \<Rightarrow> config \<Rightarrow> nat \<Rightarrow> point \<Rightarrow> int \<Rightarrow> nat \<Rightarrow> gstate \<Rightarrow> error + gstate"
  and gen_children :: "(nat \<Rightarrow> nat) \<Rightarrow> config \<Rightarrow> nat \<Rightarrow> int \<Rightarrow> nat \<Rightarrow> nat \<Rightarrow> gstate \<Rightarrow> error + gstate"
where
  "generate rnd cfg nl node parent layer st =
     (let (parent', st1) = add_node node parent layer st
      in if layer \<ge> nl then Inr st1
         else (case randint rnd (MIN_CHILD cfg) (MAX_CHILD cfg) (rpos st1) of
                 Inl e \<Rightarrow> Inl e
               | Inr (rand, p) \<Rightarrow> gen_children rnd cfg nl parent' layer (nat rand) (st1\<lparr>rpos := p\<rparr>)))"
| "gen_children rnd cfg nl parent layer 0 st = Inr st"
| "gen_children rnd cfg nl parent layer (Suc i) st =
     (if nl \<le> layer \<or> length (layers st) \<le> layer then Inl IndexError
      else (case choice rnd (layers st ! layer) (rpos st) of
              Inl e \<Rightarrow> Inl e
            | Inr (new_node, p) \<Rightarrow>
                (case generate rnd cfg nl new_node parent (layer + 1)
                        (st\<lparr>layers := (layers st)[layer := remove1 new_node (layers st ! layer)],
                            rpos := p\<rparr>) of
                   Inl e \<Rightarrow> Inl e
                 | Inr st' \<Rightarrow> gen_children rnd cfg nl parent layer i st')))"
  by pat_completeness auto
termination
  by (relation "inv_image (less_than <*lex*> less_than)
        (\<lambda>a. case a of
           Inl (rnd, cfg, nl, node, parent, layer, st) \<Rightarrow> (2 * (nl - layer) + 1, 0)
         | Inr (rnd, cfg, nl, parent, layer, i, st) \<Rightarrow> (2 * (nl - layer), i))")
     auto

declare generate.simps [simp del]

text \<open>The finished object of class \<^verbatim>\<open>Tree\<close>.\<close>

record Tree =
  tree :: "node list"
  ct :: int
  num_layers :: nat

text \<open>
  \<^verbatim>\<open>Tree.__init__\<close>: besides the new object it returns the drained layers and the oracle
  position, which the next tree starts from.
\<close>

definition Tree_init ::
  "(nat \<Rightarrow> nat) \<Rightarrow> config \<Rightarrow> point \<Rightarrow> point list list \<Rightarrow> nat \<Rightarrow> error + Tree \<times> point list list \<times> nat" where
  "Tree_init rnd cfg start_node ls p =
     (case generate rnd cfg (length ls) start_node 0 0
             \<lparr>self_tree = [], self_ct = 0, layers = ls, rpos = p\<rparr> of
        Inl e \<Rightarrow> Inl e
      | Inr st \<Rightarrow> Inr (\<lparr>tree = self_tree st, ct = self_ct st, num_layers = length ls\<rparr>,
                      layers st, rpos st))"

text \<open>\<^verbatim>\<open>Tree.translate\<close>: the loop over the indices, each row replaced in place.\<close>

definition translate_row :: "int \<Rightarrow> node \<Rightarrow> node" where
  "translate_row num row = (row0 row + num, row1 row, row2 row, row3 row, row4 row + num)"

definition translate :: "Tree \<Rightarrow> int \<Rightarrow> Tree" where
  "translate t num =
     t\<lparr>tree := fold (\<lambda>r rows. rows[r := translate_row num (rows ! r)])
                    [0..<length (tree t)] (tree t)\<rparr>"

definition num_nodes :: "Tree \<Rightarrow> nat" where
  "num_nodes t = length (tree t)"

definition get_random_leaf :: "(nat \<Rightarrow> nat) \<Rightarrow> Tree \<Rightarrow> nat \<Rightarrow> error + node \<times> nat" where
  "get_random_leaf rnd t p =
     choice rnd (filter (\<lambda>row. row2 row = - int (num_layers t)) (tree t)) p"

section \<open>Text output\<close>

text \<open>
  \<^verbatim>\<open>"{}".format\<close> on an integer is its decimal numeral. On a coordinate it is the
  numeral of an integer, or that of a float \<open>k + 0.5\<close>; no other value is ever a coordinate.
\<close>

fun show_nat :: "nat \<Rightarrow> string" where
  "show_nat n =
     (if n < 10 then [''0123456789'' ! n]
      else show_nat (n div 10) @ [''0123456789'' ! (n mod 10)])"

declare show_nat.simps [simp del]

definition show_int :: "int \<Rightarrow> string" where
  "show_int i = (if i < 0 then ''-'' @ show_nat (nat (- i)) else show_nat (nat i))"

definition show_coord :: "rat \<Rightarrow> string" where
  "show_coord q =
     (if q = of_int \<lfloor>q\<rfloor> then show_int \<lfloor>q\<rfloor>
      else (if q < 0 then ''-'' else []) @ show_nat (nat \<lfloor>\<bar>q\<bar>\<rfloor>) @ ''.5'')"

definition show_row :: "node \<Rightarrow> string" where
  "show_row row =
     show_int (row0 row) @ '','' @ show_coord (row1 row) @ '','' @ show_int (row2 row - 1) @ '','' @
     show_coord (row3 row) @ '','' @ show_int (row4 row) @ [CHR 0x0A]"

definition Tree_str :: "Tree \<Rightarrow> string" where
  "Tree_str t = concat (map show_row (tree t))"

section \<open>The forest\<close>

record Question =
  trees :: "Tree list"

text \<open>The loop of \<^verbatim>\<open>Question.__init__\<close> over the start nodes; all trees share the layers.\<close>

fun build_trees ::
  "(nat \<Rightarrow> nat) \<Rightarrow> config \<Rightarrow> point list \<Rightarrow> point list list \<Rightarrow> nat \<Rightarrow> Tree list \<Rightarrow>
   error + Tree list \<times> point list list \<times> nat" where
  "build_trees rnd cfg [] ls p acc = Inr (acc, ls, p)"
| "build_trees rnd cfg (s # ss) ls p acc =
     (case Tree_init rnd cfg s ls p of
        Inl e \<Rightarrow> Inl e
      | Inr (t, ls', p') \<Rightarrow> build_trees rnd cfg ss ls' p' (acc @ [t]))"

definition Question_init ::
  "(nat \<Rightarrow> nat) \<Rightarrow> config \<Rightarrow> point list \<Rightarrow> point list list \<Rightarrow> nat \<Rightarrow>
   error + Question \<times> point list list \<times> nat" where
  "Question_init rnd cfg start_nodes ls p =
     (case build_trees rnd cfg start_nodes ls p [] of
        Inl e \<Rightarrow> Inl e
      | Inr (ts, ls', p') \<Rightarrow> Inr (\<lparr>trees = ts\<rparr>, ls', p'))"

text \<open>The translation loop of \<^verbatim>\<open>Question.__str__\<close> (lines 85 to 88).\<close>

fun translate_trees :: "int \<Rightarrow> Tree list \<Rightarrow> Tree list" where
  "translate_trees c [] = []"
| "translate_trees c (t # ts) =
     (let t' = translate t c in t' # translate_trees (c + int (num_nodes t')) ts)"

text \<open>
  \<^verbatim>\<open>Question.__str__\<close> returns the text together with the object as the call leaves it
  and the oracle position.
\<close>

definition Question_str :: "(nat \<Rightarrow> nat) \<Rightarrow> Question \<Rightarrow> nat \<Rightarrow> error + string \<times> Question \<times> nat" where
  "Question_str rnd q p =
     (let ts = translate_trees 0 (trees q)
      in case choice rnd ts p of
           Inl e \<Rightarrow> Inl e
         | Inr (t, p1) \<Rightarrow>
             (case get_random_leaf rnd t p1 of
                Inl e \<Rightarrow> Inl e
              | Inr (random_leaf, p2) \<Rightarrow>
                  Inr (show_int (row0 random_leaf) @ [CHR 0x0A] @ ''ID,x,y,z,parent'' @ [CHR 0x0A] @
                       concat (map Tree_str ts),
                       q\<lparr>trees := ts\<rparr>, p2)))"

text \<open>\<^verbatim>\<open>main\<close> up to the export: the layers are generated, then the forest is grown.\<close>

definition main_question :: "(nat \<Rightarrow> nat) \<Rightarrow> config \<Rightarrow> error + Question \<times> point list list \<times> nat" where
  "main_question rnd cfg =
     (let (s, gen_layers) = generate_layers cfg in Question_init rnd cfg s gen_layers 0)"

section \<open>Predicates used in the statements\<close>

text \<open>Every layer is a grid of \<^verbatim>\<open>get_layer\<close> that meets the sizing bound of its depth.\<close>

definition layers_ok :: "config \<Rightarrow> point list list \<Rightarrow> bool" where
  "layers_ok cfg nodes \<longleftrightarrow>
     (\<forall>d < length nodes. NUM_TREES cfg * MAX_CHILD cfg ^ (d + 1) \<le> int (length (nodes ! d))
         \<and> (\<exists>c. nodes ! d = get_layer c))"

text \<open>The configuration as the source file ships it.\<close>

definition cfg_default :: config where
  "cfg_default = \<lparr>NUM_TREES = 3, NUM_LAYERS = 3, MIN_CHILD = 1, MAX_CHILD = 2\<rparr>"

section \<open>The layers are large enough\<close>

lemma grow_layer_spec:
  "grow_layer need c0 = (c1, l) \<Longrightarrow> need \<le> int (length l) \<and> l = get_layer c1"
proof (induction need c0 rule: grow_layer.induct)
  case (1 need c0)
  show ?case
  proof (cases "int (length (get_layer c0)) < need")
    case True
    with "1.prems" have "grow_layer need (c0 + 1) = (c1, l)"
      by (simp add: grow_layer.simps [of need c0])
    from "1.IH" [OF True this] show ?thesis .
  next
    case False
    with "1.prems" show ?thesis
      by (auto simp add: grow_layer.simps [of need c0])
  qed
qed

lemma layers_ok_snoc:
  assumes "layers_ok cfg nodes"
    and "NUM_TREES cfg * MAX_CHILD cfg ^ (length nodes + 1) \<le> int (length l)"
    and "l = get_layer c"
  shows "layers_ok cfg (nodes @ [l])"
  unfolding layers_ok_def
proof (intro allI impI)
  fix d assume "d < length (nodes @ [l])"
  then consider "d < length nodes" | "d = length nodes" by fastforce
  then show "NUM_TREES cfg * MAX_CHILD cfg ^ (d + 1) \<le> int (length ((nodes @ [l]) ! d))
         \<and> (\<exists>c. (nodes @ [l]) ! d = get_layer c)"
  proof cases
    case 1
    with assms(1) show ?thesis by (simp add: layers_ok_def nth_append)
  next
    case 2
    with assms(2,3) show ?thesis by (auto simp: nth_append)
  qed
qed

lemma layers_loop_spec:
  "layers_ok cfg nodes \<Longrightarrow> int (length nodes) \<le> max 0 (NUM_LAYERS cfg) \<Longrightarrow>
   layers_ok cfg (layers_loop cfg c0 nodes) \<and>
   length (layers_loop cfg c0 nodes) = nat (NUM_LAYERS cfg)"
proof (induction cfg c0 nodes rule: layers_loop.induct)
  case (1 cfg c0 nodes)
  show ?case
  proof (cases "int (length nodes) < NUM_LAYERS cfg")
    case True
    obtain c1 l where g: "grow_layer (NUM_TREES cfg * MAX_CHILD cfg ^ (length nodes + 1)) c0 = (c1, l)"
      by (cases "grow_layer (NUM_TREES cfg * MAX_CHILD cfg ^ (length nodes + 1)) c0")
    from grow_layer_spec [OF g] "1.prems"(1) have ok: "layers_ok cfg (nodes @ [l])"
      by (intro layers_ok_snoc [where c = c1]) auto
    have eq: "layers_loop cfg c0 nodes = layers_loop cfg c1 (nodes @ [l])"
      using True g by (simp add: layers_loop.simps [of cfg c0 nodes])
    have "int (length (nodes @ [l])) \<le> max 0 (NUM_LAYERS cfg)" using True by simp
    from "1.IH" [OF True g [symmetric] refl ok this] eq show ?thesis by simp
  next
    case False
    with "1.prems" show ?thesis
      by (simp add: layers_loop.simps [of cfg c0 nodes])
  qed
qed

text \<open>
  C2: for a configuration with \<open>1 \<le> NUM_TREES \<le> 9\<close>, \<open>NUM_LAYERS \<ge> 1\<close> and
  \<open>1 \<le> MIN_CHILD \<le> MAX_CHILD\<close>, \<^verbatim>\<open>generate_layers\<close> returns exactly \<open>NUM_LAYERS\<close>
  layers, and the layer at index \<open>d\<close> holds at least \<open>NUM_TREES * MAX_CHILD ^ (d + 1)\<close> points.
\<close>

theorem generate_layers_sized:
  assumes "1 \<le> NUM_TREES cfg" "NUM_TREES cfg \<le> 9" "1 \<le> NUM_LAYERS cfg"
    and "1 \<le> MIN_CHILD cfg" "MIN_CHILD cfg \<le> MAX_CHILD cfg"
  shows "length (snd (generate_layers cfg)) = nat (NUM_LAYERS cfg) \<and>
         (\<forall>d < length (snd (generate_layers cfg)).
            NUM_TREES cfg * MAX_CHILD cfg ^ (d + 1) \<le> int (length (snd (generate_layers cfg) ! d)))"
proof -
  have "layers_ok cfg []" by (simp add: layers_ok_def)
  from layers_loop_spec [OF this, of 1] show ?thesis
    by (simp add: generate_layers_def layers_ok_def)
qed

theorem generate_layers_sized_witness:
  "length (snd (generate_layers cfg_default)) = 3 \<and>
   NUM_TREES cfg_default * MAX_CHILD cfg_default ^ (2 + 1)
     \<le> int (length (snd (generate_layers cfg_default) ! 2))"
proof -
  have h: "1 \<le> NUM_TREES cfg_default" "NUM_TREES cfg_default \<le> 9" "1 \<le> NUM_LAYERS cfg_default"
     "1 \<le> MIN_CHILD cfg_default" "MIN_CHILD cfg_default \<le> MAX_CHILD cfg_default"
    by (simp_all add: cfg_default_def)
  have n: "nat (NUM_LAYERS cfg_default) = 3" by (simp add: cfg_default_def)
  from generate_layers_sized [OF h] n
  have len: "length (snd (generate_layers cfg_default)) = 3"
    and all: "\<forall>d<3. NUM_TREES cfg_default * MAX_CHILD cfg_default ^ (d + 1)
                 \<le> int (length (snd (generate_layers cfg_default) ! d))"
    by simp_all
  from all have "NUM_TREES cfg_default * MAX_CHILD cfg_default ^ (2 + 1)
                 \<le> int (length (snd (generate_layers cfg_default) ! 2))"
    by (rule allE [where x = 2]) simp
  with len show ?thesis by simp
qed

section \<open>Runs of the generator as a relation\<close>

text \<open>
  The successful runs of \<^verbatim>\<open>Tree.generate\<close>, with the random draws abstracted: the
  branching factor is any integer of the configured range and the new point is any member
  of the layer. Every run of the function that returns is a derivation of the relation,
  so a property of the relation holds of every generated tree.
\<close>

inductive gen_rel :: "nat \<Rightarrow> int \<Rightarrow> int \<Rightarrow> point \<Rightarrow> int \<Rightarrow> nat \<Rightarrow> gstate \<Rightarrow> gstate \<Rightarrow> bool"
  and kids_rel :: "nat \<Rightarrow> int \<Rightarrow> int \<Rightarrow> int \<Rightarrow> nat \<Rightarrow> nat \<Rightarrow> gstate \<Rightarrow> gstate \<Rightarrow> bool"
  for nl :: nat and lo :: int and hi :: int
where
  leaf: "nl \<le> layer \<Longrightarrow>
     gen_rel nl lo hi node parent layer st (snd (add_node node parent layer st))"
| inner: "layer < nl \<Longrightarrow> lo \<le> r \<Longrightarrow> r \<le> hi \<Longrightarrow>
     kids_rel nl lo hi (self_ct st) layer (nat r) ((snd (add_node node parent layer st))\<lparr>rpos := p\<rparr>) st' \<Longrightarrow>
     gen_rel nl lo hi node parent layer st st'"
| none: "kids_rel nl lo hi parent layer 0 st st"
| more: "layer < nl \<Longrightarrow> layer < length (layers st) \<Longrightarrow> x \<in> set (layers st ! layer) \<Longrightarrow>
     gen_rel nl lo hi x parent (layer + 1)
       (st\<lparr>layers := (layers st)[layer := remove1 x (layers st ! layer)], rpos := p\<rparr>) st1 \<Longrightarrow>
     kids_rel nl lo hi parent layer i st1 st' \<Longrightarrow>
     kids_rel nl lo hi parent layer (Suc i) st st'"

lemma add_node_eq:
  "add_node node parent layer st =
     (self_ct st, st\<lparr>self_tree := self_tree st @ [(self_ct st, fst node, - int layer, snd node, parent)],
                     self_ct := self_ct st + 1\<rparr>)"
  by (simp add: add_node_def Let_def)

lemma randint_Inr:
  assumes "randint rnd a b p = Inr (r, p')"
  shows "a \<le> r \<and> r \<le> b"
proof -
  from assms have ab: "a \<le> b" and r: "r = a + int (rnd p mod nat (b - a + 1))"
    by (auto simp: randint_def split: if_splits)
  from ab have "rnd p mod nat (b - a + 1) < nat (b - a + 1)" by simp
  with ab have "int (rnd p mod nat (b - a + 1)) < b - a + 1" by linarith
  with r show ?thesis by simp
qed

lemma choice_Inr: "choice rnd xs p = Inr (x, p') \<Longrightarrow> x \<in> set xs"
  by (auto simp: choice_def split: if_splits)



lemma generate_sound:
  "generate rnd cfg nl node parent layer st = Inr st' \<Longrightarrow>
     gen_rel nl (MIN_CHILD cfg) (MAX_CHILD cfg) node parent layer st st'"
  "gen_children rnd cfg nl par layer i st = Inr st' \<Longrightarrow>
     kids_rel nl (MIN_CHILD cfg) (MAX_CHILD cfg) par layer i st st'"
proof (induction rnd cfg nl node parent layer st and rnd cfg nl par layer i st
       arbitrary: st' and st' rule: generate_gen_children.induct)
  case (1 rnd cfg nl node parent layer st)
  show ?case
  proof (cases "nl \<le> layer")
    case True
    with "1.prems" have "st' = snd (add_node node parent layer st)"
      by (auto simp: generate.simps [of rnd cfg nl node parent layer st] add_node_eq)
    with True show ?thesis by (simp add: gen_rel_kids_rel.leaf)
  next
    case False
    obtain st1 where a: "add_node node parent layer st = (self_ct st, st1)"
      by (simp add: add_node_eq)
    from False "1.prems" a obtain r p where
      r: "randint rnd (MIN_CHILD cfg) (MAX_CHILD cfg) (rpos st1) = Inr (r, p)"
      and k: "gen_children rnd cfg nl (self_ct st) layer (nat r) (st1\<lparr>rpos := p\<rparr>) = Inr st'"
      by (auto simp: generate.simps [of rnd cfg nl node parent layer st] split: sum.splits)
    have "kids_rel nl (MIN_CHILD cfg) (MAX_CHILD cfg) (self_ct st) layer (nat r) (st1\<lparr>rpos := p\<rparr>) st'"
      by (rule "1.IH" [OF refl a [symmetric] False r refl k])
    with False randint_Inr [OF r] a show ?thesis
      by (intro gen_rel_kids_rel.inner [where r = r and p = p]) auto
  qed
next
  case (2 rnd cfg nl parent layer st)
  then show ?case by (simp add: gen_rel_kids_rel.none)
next
  case (3 rnd cfg nl parent layer i st)
  from "3.prems" have g: "\<not> (nl \<le> layer \<or> length (layers st) \<le> layer)"
    by (auto split: if_splits)
  with "3.prems" obtain x p st1 where
    c: "choice rnd (layers st ! layer) (rpos st) = Inr (x, p)"
    and g1: "generate rnd cfg nl x parent (layer + 1)
               (st\<lparr>layers := (layers st)[layer := remove1 x (layers st ! layer)], rpos := p\<rparr>) = Inr st1"
    and k: "gen_children rnd cfg nl parent layer i st1 = Inr st'"
    by (auto split: sum.splits)
  from "3.IH"(1) [OF g c refl g1]
  have 1: "gen_rel nl (MIN_CHILD cfg) (MAX_CHILD cfg) x parent (layer + 1)
               (st\<lparr>layers := (layers st)[layer := remove1 x (layers st ! layer)], rpos := p\<rparr>) st1" .
  from "3.IH"(2) [OF g c refl g1 k]
  have 2: "kids_rel nl (MIN_CHILD cfg) (MAX_CHILD cfg) parent layer i st1 st'" .
  from g choice_Inr [OF c] 1 2 show ?case
    by (intro gen_rel_kids_rel.more [where x = x and p = p and ?st1.0 = st1]) auto
qed

section \<open>The pools are never exhausted\<close>

text \<open>
  A subtree rooted at depth \<open>layer\<close> takes at most \<open>M ^ (j + 1 - layer)\<close> points from the
  layer of index \<open>j\<close>, where \<open>M\<close> is the largest branching factor; a loop of \<open>i\<close>
  children takes at most \<open>i * M ^ (j - layer)\<close>.
\<close>

definition demand :: "nat \<Rightarrow> nat \<Rightarrow> nat \<Rightarrow> nat" where
  "demand M layer j = (if layer \<le> j then M ^ (j + 1 - layer) else 0)"

definition kids_demand :: "nat \<Rightarrow> nat \<Rightarrow> nat \<Rightarrow> nat \<Rightarrow> nat" where
  "kids_demand M i layer j = (if layer \<le> j then i * M ^ (j - layer) else 0)"

lemma kids_demand_le_demand: "i \<le> M \<Longrightarrow> kids_demand M i layer j \<le> demand M layer j"
  by (simp add: kids_demand_def demand_def Suc_diff_le)

lemma kids_demand_Suc:
  "kids_demand M (Suc i) layer j =
     (if j = layer then 1 else 0) + demand M (layer + 1) j + kids_demand M i layer j"
  by (auto simp: kids_demand_def demand_def Suc_diff_le)

lemma add_node_layers [simp]: "layers (snd (add_node node parent layer st)) = layers st"
  by (simp add: add_node_eq)

lemma pool_use:
  shows "gen_rel nl lo hi node parent layer st st' \<Longrightarrow>
           length (layers st') = length (layers st) \<and>
           (\<forall>j<length (layers st).
              length (layers st ! j) \<le> length (layers st' ! j) + demand (nat hi) layer j)"
    and "kids_rel nl lo hi par layer i st st' \<Longrightarrow>
           length (layers st') = length (layers st) \<and>
           (i \<le> nat hi \<longrightarrow> (\<forall>j<length (layers st).
              length (layers st ! j) \<le> length (layers st' ! j) + kids_demand (nat hi) i layer j))"
proof (induction rule: gen_rel_kids_rel.inducts)
  case (leaf layer node parent st)
  then show ?case by simp
next
  case (inner layer r node parent st p st')
  from inner have "nat r \<le> nat hi" by linarith
  with inner kids_demand_le_demand [OF this, of layer] show ?case
    by (auto intro: le_trans add_left_mono)
next
  case (none parent layer st)
  then show ?case by simp
next
  case (more layer st x parent p st1 i st')
  let ?st0 = "st\<lparr>layers := (layers st)[layer := remove1 x (layers st ! layer)], rpos := p\<rparr>"
  from more have len: "length (layers st') = length (layers st)" by simp
  have "\<forall>j<length (layers st).
          length (layers st ! j) \<le> length (layers st' ! j) + kids_demand (nat hi) (Suc i) layer j"
    if i: "Suc i \<le> nat hi"
  proof (intro allI impI)
    fix j assume j: "j < length (layers st)"
    have 0: "length (layers st ! j) \<le> length (layers ?st0 ! j) + (if j = layer then 1 else 0)"
      using more j by (auto simp: length_remove1 nth_list_update)
    have 1: "length (layers ?st0 ! j) \<le> length (layers st1 ! j) + demand (nat hi) (layer + 1) j"
      using more j by simp
    have 2: "length (layers st1 ! j) \<le> length (layers st' ! j) + kids_demand (nat hi) i layer j"
      using more i j by simp
    from 0 1 2 show "length (layers st ! j) \<le> length (layers st' ! j) + kids_demand (nat hi) (Suc i) layer j"
      unfolding kids_demand_Suc by linarith
  qed
  with len show ?case by blast
qed

lemma generate_returns:
  "MIN_CHILD cfg \<le> MAX_CHILD cfg \<Longrightarrow> length (layers st) = nl \<Longrightarrow>
     (\<forall>j<nl. demand (nat (MAX_CHILD cfg)) layer j \<le> length (layers st ! j)) \<Longrightarrow>
     \<exists>st'. generate rnd cfg nl node parent layer st = Inr st'"
  "MIN_CHILD cfg \<le> MAX_CHILD cfg \<Longrightarrow> length (layers st) = nl \<Longrightarrow> layer < nl \<Longrightarrow>
     i \<le> nat (MAX_CHILD cfg) \<Longrightarrow>
     (\<forall>j<nl. kids_demand (nat (MAX_CHILD cfg)) i layer j \<le> length (layers st ! j)) \<Longrightarrow>
     \<exists>st'. gen_children rnd cfg nl par layer i st = Inr st'"
proof (induction rnd cfg nl node parent layer st and rnd cfg nl par layer i st
       rule: generate_gen_children.induct)
  case (1 rnd cfg nl node parent layer st)
  let ?M = "nat (MAX_CHILD cfg)"
  show ?case
  proof (cases "nl \<le> layer")
    case True
    then show ?thesis
      by (simp add: generate.simps [of rnd cfg nl node parent layer st] add_node_eq)
  next
    case False
    obtain st1 where a: "add_node node parent layer st = (self_ct st, st1)"
      by (simp add: add_node_eq)
    then have l1: "layers st1 = layers st" by (auto simp: add_node_eq)
    obtain r p where r: "randint rnd (MIN_CHILD cfg) (MAX_CHILD cfg) (rpos st1) = Inr (r, p)"
      using "1.prems"(1) by (simp add: randint_def)
    from randint_Inr [OF r] have rM: "nat r \<le> ?M" by linarith
    have "\<forall>j<nl. kids_demand ?M (nat r) layer j \<le> length (layers (st1\<lparr>rpos := p\<rparr>) ! j)"
      using "1.prems"(3) kids_demand_le_demand [OF rM, of layer] l1
      by (auto intro: le_trans)
    with "1.IH" [OF refl a [symmetric] False r refl "1.prems"(1) _ _ rM] "1.prems"(2) l1 False
    obtain st' where "gen_children rnd cfg nl (self_ct st) layer (nat r) (st1\<lparr>rpos := p\<rparr>) = Inr st'"
      by auto
    with False a r show ?thesis
      by (simp add: generate.simps [of rnd cfg nl node parent layer st])
  qed
next
  case (2 rnd cfg nl parent layer st)
  then show ?case by simp
next
  case (3 rnd cfg nl parent layer i st)
  let ?M = "nat (MAX_CHILD cfg)"
  from "3.prems" have g: "\<not> (nl \<le> layer \<or> length (layers st) \<le> layer)" by simp
  from "3.prems"(5) "3.prems"(3) have "kids_demand ?M (Suc i) layer layer \<le> length (layers st ! layer)"
    by blast
  then have ne: "layers st ! layer \<noteq> []" by (auto simp: kids_demand_def)
  then obtain x p where c: "choice rnd (layers st ! layer) (rpos st) = Inr (x, p)"
    by (simp add: choice_def)
  let ?st0 = "st\<lparr>layers := (layers st)[layer := remove1 x (layers st ! layer)], rpos := p\<rparr>"
  have x: "x \<in> set (layers st ! layer)" by (rule choice_Inr [OF c])
  have len0: "length (layers ?st0) = nl" using "3.prems"(2) by simp
  have d0: "\<forall>j<nl. (if j = layer then 1 else 0) + demand ?M (layer + 1) j + kids_demand ?M i layer j
                    \<le> length (layers st ! j)"
    using "3.prems"(5) unfolding kids_demand_Suc by simp
  have pre1: "\<forall>j<nl. demand ?M (layer + 1) j \<le> length (layers ?st0 ! j)"
  proof (intro allI impI)
    fix j assume j: "j < nl"
    show "demand ?M (layer + 1) j \<le> length (layers ?st0 ! j)"
    proof (cases "j = layer")
      case True
      then show ?thesis by (simp add: demand_def)
    next
      case False
      with d0 j "3.prems"(2) show ?thesis by (auto simp: nth_list_update dest: spec [where x = j])
    qed
  qed
  from "3.IH"(1) [OF g c refl "3.prems"(1) len0 pre1]
  obtain st1 where g1: "generate rnd cfg nl x parent (layer + 1) ?st0 = Inr st1" by blast
  from pool_use(1) [OF generate_sound(1) [OF g1]] len0
  have len1: "length (layers st1) = nl"
    and use1: "\<forall>j<nl. length (layers ?st0 ! j) \<le> length (layers st1 ! j) + demand ?M (layer + 1) j"
    by auto
  have pre2: "\<forall>j<nl. kids_demand ?M i layer j \<le> length (layers st1 ! j)"
  proof (intro allI impI)
    fix j assume j: "j < nl"
    have 0: "length (layers st ! j) \<le> length (layers ?st0 ! j) + (if j = layer then 1 else 0)"
      using x j "3.prems"(2) by (auto simp: length_remove1 nth_list_update)
    from d0 j have "(if j = layer then 1 else 0) + demand ?M (layer + 1) j + kids_demand ?M i layer j
                    \<le> length (layers st ! j)" by blast
    with 0 use1 j show "kids_demand ?M i layer j \<le> length (layers st1 ! j)"
      by (auto dest!: spec [where x = j] split: if_splits)
  qed
  from "3.prems"(4) have "i \<le> ?M" by simp
  from "3.IH"(2) [OF g c refl g1 "3.prems"(1) len1 "3.prems"(3) this pre2]
  obtain st' where "gen_children rnd cfg nl parent layer i st1 = Inr st'" by blast
  with g c g1 show ?case by simp
qed

lemma Tree_init_returns:
  assumes "MIN_CHILD cfg \<le> MAX_CHILD cfg"
    and "\<forall>j<length ls. nat (MAX_CHILD cfg) ^ (j + 1) \<le> length (ls ! j)"
  shows "\<exists>t ls' p'. Tree_init rnd cfg s ls p = Inr (t, ls', p') \<and> length ls' = length ls \<and>
           (\<forall>j<length ls. length (ls ! j) \<le> length (ls' ! j) + nat (MAX_CHILD cfg) ^ (j + 1))"
proof -
  let ?st = "\<lparr>self_tree = [], self_ct = 0, layers = ls, rpos = p\<rparr>"
  have "\<forall>j<length ls. demand (nat (MAX_CHILD cfg)) 0 j \<le> length (layers ?st ! j)"
    using assms(2) by (simp add: demand_def)
  from generate_returns(1) [OF assms(1) _ this, of rnd s 0]
  obtain st' where g: "generate rnd cfg (length ls) s 0 0 ?st = Inr st'" by auto
  from pool_use(1) [OF generate_sound(1) [OF g]]
  have "length (layers st') = length ls"
    and "\<forall>j<length ls. length (ls ! j) \<le> length (layers st' ! j) + nat (MAX_CHILD cfg) ^ (j + 1)"
    by (simp_all add: demand_def)
  with g show ?thesis by (simp add: Tree_init_def)
qed

lemma build_trees_returns:
  assumes "MIN_CHILD cfg \<le> MAX_CHILD cfg"
  shows "\<forall>j<length ls. length ss * nat (MAX_CHILD cfg) ^ (j + 1) \<le> length (ls ! j) \<Longrightarrow>
         \<exists>r. build_trees rnd cfg ss ls p acc = Inr r"
proof (induction ss arbitrary: ls p acc)
  case Nil
  then show ?case by simp
next
  case (Cons s ss)
  let ?M = "nat (MAX_CHILD cfg)"
  from Cons.prems have "\<forall>j<length ls. ?M ^ (j + 1) \<le> length (ls ! j)"
    by (auto intro: le_trans [rotated])
  from Tree_init_returns [OF assms this, of rnd s p]
  obtain t ls' p' where t: "Tree_init rnd cfg s ls p = Inr (t, ls', p')"
    and len: "length ls' = length ls"
    and use: "\<forall>j<length ls. length (ls ! j) \<le> length (ls' ! j) + ?M ^ (j + 1)"
    by blast
  have "\<forall>j<length ls'. length ss * ?M ^ (j + 1) \<le> length (ls' ! j)"
  proof (intro allI impI)
    fix j assume "j < length ls'"
    with len have j: "j < length ls" by simp
    from Cons.prems j have "?M ^ (j + 1) + length ss * ?M ^ (j + 1) \<le> length (ls ! j)" by simp
    with use j show "length ss * ?M ^ (j + 1) \<le> length (ls' ! j)"
      by (auto dest!: spec [where x = j])
  qed
  from Cons.IH [OF this] t show ?case by simp
qed

lemma generate_layers_nat_bound:
  assumes "1 \<le> NUM_TREES cfg" "1 \<le> MAX_CHILD cfg"
  shows "\<forall>j<length (snd (generate_layers cfg)).
           length (fst (generate_layers cfg)) * nat (MAX_CHILD cfg) ^ (j + 1)
             \<le> length (snd (generate_layers cfg) ! j)"
proof (intro allI impI)
  fix j assume j: "j < length (snd (generate_layers cfg))"
  have "layers_ok cfg []" by (simp add: layers_ok_def)
  from layers_loop_spec [OF this, of 1] j
  have "NUM_TREES cfg * MAX_CHILD cfg ^ (j + 1) \<le> int (length (snd (generate_layers cfg) ! j))"
    by (simp add: generate_layers_def layers_ok_def)
  moreover have "int (length (fst (generate_layers cfg)) * nat (MAX_CHILD cfg) ^ (j + 1))
                   = NUM_TREES cfg * MAX_CHILD cfg ^ (j + 1)"
    using assms by (simp add: generate_layers_def)
  ultimately show "length (fst (generate_layers cfg)) * nat (MAX_CHILD cfg) ^ (j + 1)
             \<le> length (snd (generate_layers cfg) ! j)"
    by linarith
qed

text \<open>
  C1: for a configuration with \<open>1 \<le> NUM_TREES \<le> 9\<close>, \<open>NUM_LAYERS \<ge> 1\<close> and
  \<open>1 \<le> MIN_CHILD \<le> MAX_CHILD\<close>, and for every sequence of random choices, growing the
  trees one after the other over the layers of \<^verbatim>\<open>generate_layers\<close> raises no error: every
  draw of \<^verbatim>\<open>Tree.generate\<close> finds its layer non-empty, and the forest is returned.
\<close>

theorem generation_never_exhausts:
  assumes "1 \<le> NUM_TREES cfg" "NUM_TREES cfg \<le> 9" "1 \<le> NUM_LAYERS cfg"
    and "1 \<le> MIN_CHILD cfg" "MIN_CHILD cfg \<le> MAX_CHILD cfg"
  shows "\<exists>q ls p. main_question rnd cfg = Inr (q, ls, p)"
proof -
  from assms have M: "1 \<le> MAX_CHILD cfg" by simp
  from build_trees_returns [OF assms(5) generate_layers_nat_bound [OF assms(1) M], of rnd 0 "[]"]
  show ?thesis
    by (auto simp: main_question_def Question_init_def split: prod.splits)
qed

theorem generation_never_exhausts_witness:
  "\<exists>q ls p. main_question (\<lambda>n. n) cfg_default = Inr (q, ls, p)"
proof -
  have h: "1 \<le> NUM_TREES cfg_default" "NUM_TREES cfg_default \<le> 9" "1 \<le> NUM_LAYERS cfg_default"
     "1 \<le> MIN_CHILD cfg_default" "MIN_CHILD cfg_default \<le> MAX_CHILD cfg_default"
    by (simp_all add: cfg_default_def)
  show ?thesis by (rule generation_never_exhausts [OF h])
qed

section \<open>Translation of a tree\<close>

definition tree_example :: Tree where
  "tree_example = \<lparr>tree = [(0, 0, 0, 0, 0), (1, - 2, - 1, - 1, 0)], ct = 2, num_layers = 1\<rparr>"

lemma row_simps [simp]:
  "row0 (a, b, c, d, e) = a" "row1 (a, b, c, d, e) = b" "row2 (a, b, c, d, e) = c"
  "row3 (a, b, c, d, e) = d" "row4 (a, b, c, d, e) = e"
  by (simp_all add: row0_def row1_def row2_def row3_def row4_def)

lemma translate_row_fields [simp]:
  "row0 (translate_row num row) = row0 row + num"
  "row1 (translate_row num row) = row1 row"
  "row2 (translate_row num row) = row2 row"
  "row3 (translate_row num row) = row3 row"
  "row4 (translate_row num row) = row4 row + num"
  by (simp_all add: translate_row_def)

lemma fold_update_upt:
  "n \<le> length xs \<Longrightarrow>
     fold (\<lambda>r rows. rows[r := f (rows ! r)]) [0..<n] xs = map f (take n xs) @ drop n xs"
proof (induction n)
  case 0
  then show ?case by simp
next
  case (Suc n)
  then have n: "n < length xs" by simp
  let ?rows = "map f (take n xs) @ drop n xs"
  have "fold (\<lambda>r rows. rows[r := f (rows ! r)]) [0..<Suc n] xs = ?rows[n := f (?rows ! n)]"
    using Suc by simp
  also have "?rows ! n = xs ! n"
    using n by (simp add: nth_append)
  also have "?rows[n := f (xs ! n)] = map f (take n xs) @ (drop n xs)[0 := f (xs ! n)]"
    using n by (simp add: list_update_append)
  also have "(drop n xs)[0 := f (xs ! n)] = f (xs ! n) # drop (Suc n) xs"
    using n by (simp add: Cons_nth_drop_Suc [symmetric])
  also have "map f (take n xs) @ f (xs ! n) # drop (Suc n) xs = map f (take (Suc n) xs) @ drop (Suc n) xs"
    using n by (simp add: take_Suc_conv_app_nth)
  finally show ?case .
qed

lemma tree_translate: "tree (translate t num) = map (translate_row num) (tree t)"
  by (simp add: translate_def fold_update_upt)

text \<open>
  C9: for every tree and every integer \<open>num\<close>, \<^verbatim>\<open>Tree.translate(num)\<close> adds \<open>num\<close> to the
  ID and to the parent field of every node and leaves the fields x, y and z unchanged; the
  difference between parent and ID of every node is preserved. The number of rows and the
  other fields of the object do not change either.
\<close>

theorem translate_frame:
  "length (tree (translate t num)) = length (tree t) \<and>
   ct (translate t num) = ct t \<and> num_layers (translate t num) = num_layers t \<and>
   (\<forall>r<length (tree t).
      row0 (tree (translate t num) ! r) = row0 (tree t ! r) + num \<and>
      row4 (tree (translate t num) ! r) = row4 (tree t ! r) + num \<and>
      row1 (tree (translate t num) ! r) = row1 (tree t ! r) \<and>
      row2 (tree (translate t num) ! r) = row2 (tree t ! r) \<and>
      row3 (tree (translate t num) ! r) = row3 (tree t ! r) \<and>
      row4 (tree (translate t num) ! r) - row0 (tree (translate t num) ! r)
        = row4 (tree t ! r) - row0 (tree t ! r))"
  by (simp add: tree_translate) (simp add: translate_def)

theorem translate_frame_witness:
  "length (tree tree_example) = 2 \<and>
   tree (translate tree_example 5) ! 1 = (6, - 2, - 1, - 1, 5) \<and>
   row0 (tree (translate tree_example 5) ! 1) = row0 (tree tree_example ! 1) + 5 \<and>
   row4 (tree (translate tree_example 5) ! 1) = row4 (tree tree_example ! 1) + 5 \<and>
   row1 (tree (translate tree_example 5) ! 1) = row1 (tree tree_example ! 1)"
proof -
  have 1: "(1::nat) < length (tree tree_example)" by (simp add: tree_example_def)
  have 2: "tree (translate tree_example 5) ! 1 = (6, - 2, - 1, - 1, 5)"
    by (simp add: tree_example_def translate_def translate_row_def)
  from translate_frame [of tree_example 5] 1
  have "row0 (tree (translate tree_example 5) ! 1) = row0 (tree tree_example ! 1) + 5 \<and>
        row4 (tree (translate tree_example 5) ! 1) = row4 (tree tree_example ! 1) + 5 \<and>
        row1 (tree (translate tree_example 5) ! 1) = row1 (tree tree_example ! 1)"
    by blast
  with 2 show ?thesis by (simp add: tree_example_def)
qed

section \<open>What a run adds to the tree\<close>

lemma add_node_fields [simp]:
  "self_tree (snd (add_node node parent layer st)) =
     self_tree st @ [(self_ct st, fst node, - int layer, snd node, parent)]"
  "self_ct (snd (add_node node parent layer st)) = self_ct st + 1"
  by (simp_all add: add_node_eq)

lemma gen_frame:
  shows "gen_rel nl lo hi node parent layer st st' \<Longrightarrow>
           \<exists>new. self_tree st' = self_tree st @ (self_ct st, fst node, - int layer, snd node, parent) # new"
    and "kids_rel nl lo hi par layer i st st' \<Longrightarrow> \<exists>new. self_tree st' = self_tree st @ new"
proof (induction rule: gen_rel_kids_rel.inducts)
  case (leaf layer node parent st)
  then show ?case by simp
next
  case (inner layer r node parent st p st')
  then show ?case by auto
next
  case (none parent layer st)
  then show ?case by simp
next
  case (more layer st x parent p st1 i st')
  then show ?case by auto
qed

definition ids_ok :: "node list \<Rightarrow> bool" where
  "ids_ok rows \<longleftrightarrow> map row0 rows = map int [0..<length rows]"

lemma gen_ids:
  shows "gen_rel nl lo hi node parent layer st st' \<Longrightarrow>
           self_ct st = int (length (self_tree st)) \<and> ids_ok (self_tree st) \<Longrightarrow>
           self_ct st' = int (length (self_tree st')) \<and> ids_ok (self_tree st')"
    and "kids_rel nl lo hi par layer i st st' \<Longrightarrow>
           self_ct st = int (length (self_tree st)) \<and> ids_ok (self_tree st) \<Longrightarrow>
           self_ct st' = int (length (self_tree st')) \<and> ids_ok (self_tree st')"
proof (induction rule: gen_rel_kids_rel.inducts)
  case (leaf layer node parent st)
  then show ?case by (simp add: ids_ok_def)
next
  case (inner layer r node parent st p st')
  then show ?case by (simp add: ids_ok_def)
next
  case (none parent layer st)
  then show ?case by simp
next
  case (more layer st x parent p st1 i st')
  then show ?case by simp
qed

lemma Tree_init_gen_rel:
  assumes "Tree_init rnd cfg s ls p = Inr (t, ls', p')"
  shows "\<exists>st'. gen_rel (length ls) (MIN_CHILD cfg) (MAX_CHILD cfg) s 0 0
                  \<lparr>self_tree = [], self_ct = 0, layers = ls, rpos = p\<rparr> st' \<and>
               t = \<lparr>tree = self_tree st', ct = self_ct st', num_layers = length ls\<rparr> \<and>
               ls' = layers st'"
  using assms by (auto simp: Tree_init_def split: sum.splits dest: generate_sound(1))

lemma Tree_init_ids:
  assumes "Tree_init rnd cfg s ls p = Inr (t, ls', p')"
  shows "ids_ok (tree t)"
proof -
  from Tree_init_gen_rel [OF assms] obtain st' where
    g: "gen_rel (length ls) (MIN_CHILD cfg) (MAX_CHILD cfg) s 0 0
          \<lparr>self_tree = [], self_ct = 0, layers = ls, rpos = p\<rparr> st'"
    and t: "t = \<lparr>tree = self_tree st', ct = self_ct st', num_layers = length ls\<rparr>"
    by blast
  from gen_ids(1) [OF g] t show ?thesis by (simp add: ids_ok_def)
qed

lemma build_trees_all:
  assumes step: "\<And>s ls p t ls' p'. R ls \<Longrightarrow> Tree_init rnd cfg s ls p = Inr (t, ls', p') \<Longrightarrow> Q t \<and> R ls'"
  shows "build_trees rnd cfg ss ls p acc = Inr (ts, ls', p') \<Longrightarrow> R ls \<Longrightarrow> \<forall>t\<in>set acc. Q t \<Longrightarrow>
         (\<forall>t\<in>set ts. Q t) \<and> R ls'"
proof (induction ss arbitrary: ls p acc)
  case Nil
  then show ?case by simp
next
  case (Cons s ss)
  from Cons.prems(1) obtain t ls1 p1 where
    t: "Tree_init rnd cfg s ls p = Inr (t, ls1, p1)"
    and b: "build_trees rnd cfg ss ls1 p1 (acc @ [t]) = Inr (ts, ls', p')"
    by (auto split: sum.splits)
  from step [OF Cons.prems(2) t] Cons.prems(3) have "R ls1" "\<forall>t\<in>set (acc @ [t]). Q t" by auto
  from Cons.IH [OF b this] show ?case .
qed

lemma main_question_all:
  assumes step: "\<And>s ls p t ls' p'. length ls = nat (NUM_LAYERS cfg) \<Longrightarrow>
                   Tree_init rnd cfg s ls p = Inr (t, ls', p') \<Longrightarrow> Q t"
    and m: "main_question rnd cfg = Inr (q, ls, p)"
  shows "\<forall>t\<in>set (trees q). Q t"
proof -
  have ok: "layers_ok cfg []" by (simp add: layers_ok_def)
  have len: "length (snd (generate_layers cfg)) = nat (NUM_LAYERS cfg)"
    using layers_loop_spec [OF ok, of 1] by (simp add: generate_layers_def)
  from m obtain ts where
    b: "build_trees rnd cfg (fst (generate_layers cfg)) (snd (generate_layers cfg)) 0 [] = Inr (ts, ls, p)"
    and q: "q = \<lparr>trees = ts\<rparr>"
    by (auto simp: main_question_def Question_init_def split: prod.splits sum.splits)
  have "(\<forall>t\<in>set ts. Q t) \<and> length ls = nat (NUM_LAYERS cfg)"
  proof (rule build_trees_all [where R = "\<lambda>ls. length ls = nat (NUM_LAYERS cfg)" and Q = Q, OF _ b len])
    fix s ls p t ls' p'
    assume l: "length ls = nat (NUM_LAYERS cfg)" and t: "Tree_init rnd cfg s ls p = Inr (t, ls', p')"
    from Tree_init_gen_rel [OF t] obtain st' where
      "gen_rel (length ls) (MIN_CHILD cfg) (MAX_CHILD cfg) s 0 0
          \<lparr>self_tree = [], self_ct = 0, layers = ls, rpos = p\<rparr> st'" and "ls' = layers st'"
      by blast
    with pool_use(1) [OF this(1)] l have "length ls' = nat (NUM_LAYERS cfg)" by simp
    with step [OF l t] show "Q t \<and> length ls' = nat (NUM_LAYERS cfg)" by simp
  qed simp
  with q show ?thesis by simp
qed

section \<open>Identifiers after translation\<close>

lemma upt_split_int:
  "map (\<lambda>k. c + int k) [0..<a + b] =
     map (\<lambda>k. c + int k) [0..<a] @ map (\<lambda>k. c + int a + int k) [0..<b]"
  by (induction b) simp_all

lemma translate_trees_ids:
  "\<forall>t\<in>set ts. ids_ok (tree t) \<Longrightarrow>
     map row0 (concat (map tree (translate_trees c ts))) =
       map (\<lambda>k. c + int k) [0..<length (concat (map tree ts))]"
proof (induction ts arbitrary: c)
  case Nil
  then show ?case by simp
next
  case (Cons t ts)
  from Cons.prems have t: "map row0 (tree t) = map int [0..<length (tree t)]"
    by (simp add: ids_ok_def)
  have "map row0 (map (translate_row c) (tree t)) = map (\<lambda>k. c + int k) [0..<length (tree t)]"
  proof -
    have "map row0 (map (translate_row c) (tree t)) = map (\<lambda>i. i + c) (map row0 (tree t))"
      by (simp add: comp_def)
    also have "\<dots> = map (\<lambda>k. c + int k) [0..<length (tree t)]"
      unfolding t by (simp add: comp_def add.commute)
    finally show ?thesis .
  qed
  moreover from Cons.IH [of "c + int (length (tree t))"] Cons.prems
  have "map row0 (concat (map tree (translate_trees (c + int (length (tree t))) ts))) =
          map (\<lambda>k. c + int (length (tree t)) + int k) [0..<length (concat (map tree ts))]"
    by simp
  ultimately show ?case
    by (simp add: Let_def tree_translate num_nodes_def upt_split_int)
qed

definition cfg_small :: config where
  "cfg_small = \<lparr>NUM_TREES = 2, NUM_LAYERS = 1, MIN_CHILD = 1, MAX_CHILD = 1\<rparr>"

text \<open>
  C3: in every generated forest, after the translation pass of \<^verbatim>\<open>Question.__str__\<close> (tree
  \<open>k\<close> shifted by the node count of the trees before it), the IDs of all node records of
  the forest are pairwise different.
\<close>

theorem ids_unique_after_translation:
  assumes "main_question rnd cfg = Inr (q, ls, p)"
  shows "distinct (map row0 (concat (map tree (translate_trees 0 (trees q)))))"
proof -
  have "\<forall>t\<in>set (trees q). ids_ok (tree t)"
    by (rule main_question_all [OF _ assms]) (rule Tree_init_ids)
  from translate_trees_ids [OF this, of 0]
  have "map row0 (concat (map tree (translate_trees 0 (trees q)))) =
          map int [0..<length (concat (map tree (trees q)))]"
    by simp
  then show ?thesis by (simp add: distinct_map)
qed

lemma main_question_small_returns: "\<not> isl (main_question (\<lambda>n. 0) cfg_small)"
  by code_simp

lemma main_question_small_ids:
  "map row0 (concat (map tree (translate_trees 0
      (trees (fst (projr (main_question (\<lambda>n. 0) cfg_small))))))) = [0, 1, 2, 3]"
  by code_simp

theorem ids_unique_after_translation_witness:
  "\<exists>q ls p. main_question (\<lambda>n. 0) cfg_small = Inr (q, ls, p) \<and>
     map row0 (concat (map tree (translate_trees 0 (trees q)))) = [0, 1, 2, 3] \<and>
     distinct (map row0 (concat (map tree (translate_trees 0 (trees q)))))"
proof -
  from main_question_small_returns obtain q ls p
    where m: "main_question (\<lambda>n. 0) cfg_small = Inr (q, ls, p)"
    by (cases "main_question (\<lambda>n. 0) cfg_small") auto
  from main_question_small_ids m
  have "map row0 (concat (map tree (translate_trees 0 (trees q)))) = [0, 1, 2, 3]" by simp
  with m ids_unique_after_translation [OF m]
  have "main_question (\<lambda>n. 0) cfg_small = Inr (q, ls, p) \<and>
     map row0 (concat (map tree (translate_trees 0 (trees q)))) = [0, 1, 2, 3] \<and>
     distinct (map row0 (concat (map tree (translate_trees 0 (trees q)))))"
    by simp
  then show ?thesis by (intro exI)
qed

end
